theory Spec2Isabelle
  imports Main "HOL-Library.Word"
begin

section \<open>JavaScript values used by the chat UI\<close>

text \<open>
  The component under verification is \<^verbatim>\<open>frontend/src/App.js\<close>, a React function
  component with four pieces of state and two asynchronous operations.

  Text that the user types or that the page displays is a JavaScript string, that is a
  sequence of UTF-16 code units. Names that only ever occur as ASCII literals of the
  program (status values, CSS class names, property names, key names) are written as
  HOL strings.
\<close>

type_synonym jsstring = "16 word list"

text \<open>
  A value as \<^verbatim>\<open>response.json()\<close> produces it, plus \<^verbatim>\<open>undefined\<close> for a property
  that is not there. Numbers are integers here: the program inspects a number only
  through its truthiness.
\<close>

datatype jsval =
    JUndefined
  | JNull
  | JBool bool
  | JNum int
  | JStr jsstring
  | JArr "jsval list"
  | JObj "(string \<times> jsval) list"

datatype js_error = TypeError | SyntaxError | NetworkError | Error string

text \<open>The condition of \<^verbatim>\<open>v ? a : b\<close>.\<close>

fun truthy :: "jsval \<Rightarrow> bool" where
  "truthy JUndefined = False"
| "truthy JNull = False"
| "truthy (JBool b) = b"
| "truthy (JNum n) = (n \<noteq> 0)"
| "truthy (JStr s) = (s \<noteq> [])"
| "truthy (JArr xs) = True"
| "truthy (JObj kvs) = True"

text \<open>
  \<^verbatim>\<open>data.name\<close> for the two names the program reads (\<^verbatim>\<open>openai_available\<close> and
  \<^verbatim>\<open>response\<close>): a TypeError on \<^verbatim>\<open>null\<close> and \<^verbatim>\<open>undefined\<close>, the member of an
  object (the last one when the JSON text repeats a key), \<^verbatim>\<open>undefined\<close> otherwise.
\<close>

fun get_prop :: "jsval \<Rightarrow> string \<Rightarrow> js_error + jsval" where
  "get_prop JUndefined k = Inl TypeError"
| "get_prop JNull k = Inl TypeError"
| "get_prop (JObj kvs) k =
     Inr (case map_of (rev kvs) k of None \<Rightarrow> JUndefined | Some v \<Rightarrow> v)"
| "get_prop v k = Inr JUndefined"

text \<open>
  \<^verbatim>\<open>String.prototype.trim\<close> strips WhiteSpace and LineTerminator code points from both
  ends. All of them lie in the basic plane, so each is one code unit.
\<close>

definition isWhiteSpace :: "16 word \<Rightarrow> bool" where
  "isWhiteSpace c \<longleftrightarrow>
     c \<in> {0x0009, 0x000A, 0x000B, 0x000C, 0x000D, 0x0020, 0x00A0, 0x1680,
          0x2028, 0x2029, 0x202F, 0x205F, 0x3000, 0xFEFF}
     \<or> (0x2000 \<le> c \<and> c \<le> 0x200A)"

definition trim :: "jsstring \<Rightarrow> jsstring" where
  "trim s = rev (dropWhile isWhiteSpace (rev (dropWhile isWhiteSpace s)))"

section \<open>The component state\<close>

text \<open>
  A chat message object. The field \<^verbatim>\<open>isUser\<close> is optional in the objects the program
  builds: \<open>None\<close> is an object without that property.
\<close>

record message =
  id' :: int
  text' :: jsval
  isUser :: "bool option"
  timestamp :: jsstring

record App_state =
  messages :: "message list"
  inputMessage :: jsstring
  isLoading :: bool
  openaiStatus :: string

definition greeting_text :: jsstring where
  "greeting_text =
     [0x0E2A, 0x0E27, 0x0E31, 0x0E2A, 0x0E14, 0x0E35, 0x0E04, 0x0E23, 0x0E31, 0x0E1A,
      0x0021, 0x0020, 0x0E22, 0x0E34, 0x0E19, 0x0E14, 0x0E35, 0x0E15, 0x0E49, 0x0E2D,
      0x0E19, 0x0E23, 0x0E31, 0x0E1A, 0x0E2A, 0x0E39, 0x0E48, 0x0020, 0x0041, 0x0049,
      0x0020, 0x0043, 0x0068, 0x0061, 0x0074, 0x0062, 0x006F, 0x0074, 0x0020, 0x0E02,
      0x0E2D, 0x0E07, 0x0E40, 0x0E23, 0x0E32, 0x0020, 0xD83D, 0xDE0A]"

definition apology_text :: jsstring where
  "apology_text =
     [0x0E02, 0x0E2D, 0x0E2D, 0x0E20, 0x0E31, 0x0E22, 0x0E04, 0x0E23, 0x0E31, 0x0E1A,
      0x0020, 0x0E40, 0x0E01, 0x0E34, 0x0E14, 0x0E02, 0x0E49, 0x0E2D, 0x0E1C, 0x0E34,
      0x0E14, 0x0E1E, 0x0E25, 0x0E32, 0x0E14, 0x0E43, 0x0E19, 0x0E01, 0x0E32, 0x0E23,
      0x0E40, 0x0E0A, 0x0E37, 0x0E48, 0x0E2D, 0x0E21, 0x0E15, 0x0E48, 0x0E2D, 0x0020,
      0x0E01, 0x0E23, 0x0E38, 0x0E13, 0x0E32, 0x0E25, 0x0E2D, 0x0E07, 0x0E43, 0x0E2B,
      0x0E21, 0x0E48, 0x0E2D, 0x0E35, 0x0E01, 0x0E04, 0x0E23, 0x0E31, 0x0E49, 0x0E07]"

text \<open>
  The four \<^verbatim>\<open>useState\<close> initial values. \<open>ts\<close> is what
  \<^verbatim>\<open>new Date().toLocaleTimeString('th-TH')\<close> returns at the first render.
\<close>

definition App_initial :: "jsstring \<Rightarrow> App_state" where
  "App_initial ts =
     \<lparr>messages = [\<lparr>id' = 1, text' = JStr greeting_text, isUser = Some False, timestamp = ts\<rparr>],
      inputMessage = [],
      isLoading = False,
      openaiStatus = ''checking''\<rparr>"

section \<open>Requests and their outcomes\<close>

datatype request = GetStatus | PostChat jsstring

text \<open>
  What the program can observe of a \<^verbatim>\<open>fetch\<close>: the promise rejects, or it resolves to
  a response with its \<^verbatim>\<open>ok\<close> flag, whose \<^verbatim>\<open>json()\<close> in turn rejects or gives a value.
\<close>

record response =
  ok :: bool
  json :: "js_error + jsval"

datatype fetch_result = Rejected js_error | Resolved response

section \<open>checkOpenAIStatus\<close>

text \<open>
  An \<^verbatim>\<open>async\<close> function runs up to its first \<^verbatim>\<open>await\<close> when called and continues when
  the awaited promise settles. \<^verbatim>\<open>checkOpenAIStatus\<close> issues the request and touches no
  state before the request has settled; all it does afterwards is one
  \<^verbatim>\<open>setOpenaiStatus\<close>.
\<close>

definition checkOpenAIStatus :: "request list" where
  "checkOpenAIStatus = [GetStatus]"

text \<open>The \<^verbatim>\<open>try\<close> block: the status it sets, or the exception it throws.\<close>

definition checkOpenAIStatus_try :: "fetch_result \<Rightarrow> js_error + string" where
  "checkOpenAIStatus_try r =
     (case r of
        Rejected e \<Rightarrow> Inl e
      | Resolved resp \<Rightarrow>
          if ok resp then
            (case json resp of
               Inl e \<Rightarrow> Inl e
             | Inr data \<Rightarrow>
                 (case get_prop data ''openai_available'' of
                    Inl e \<Rightarrow> Inl e
                  | Inr v \<Rightarrow> Inr (if truthy v then ''connected'' else ''not_configured'')))
          else Inr ''error'')"

definition checkOpenAIStatus_settled :: "fetch_result \<Rightarrow> App_state \<Rightarrow> App_state" where
  "checkOpenAIStatus_settled r s =
     (case checkOpenAIStatus_try r of
        Inr v \<Rightarrow> s\<lparr>openaiStatus := v\<rparr>
      | Inl e \<Rightarrow> s\<lparr>openaiStatus := ''error''\<rparr>)"

section \<open>sendMessage\<close>

text \<open>
  The part of \<^verbatim>\<open>sendMessage\<close> before \<^verbatim>\<open>await fetch\<close>: the new state and the requests
  issued. \<open>now\<close> is the reading of \<^verbatim>\<open>Date.now()\<close>, \<open>ts\<close> the formatted time.
\<close>

definition sendMessage :: "int \<Rightarrow> jsstring \<Rightarrow> App_state \<Rightarrow> App_state \<times> request list" where
  "sendMessage now ts s =
     (if trim (inputMessage s) = [] then (s, [])
      else
        let currentMessage = inputMessage s;
            userMessage = \<lparr>id' = now, text' = JStr currentMessage, isUser = Some True,
                           timestamp = ts\<rparr>
        in (s\<lparr>messages := messages s @ [userMessage], inputMessage := [], isLoading := True\<rparr>,
            [PostChat currentMessage]))"

text \<open>
  The \<^verbatim>\<open>try\<close> block after the request has settled: the bot message it appends, or the
  exception that takes control to the \<^verbatim>\<open>catch\<close> block.
\<close>

definition sendMessage_try :: "fetch_result \<Rightarrow> int \<Rightarrow> jsstring \<Rightarrow> js_error + message" where
  "sendMessage_try r now ts =
     (case r of
        Rejected e \<Rightarrow> Inl e
      | Resolved resp \<Rightarrow>
          if ok resp then
            (case json resp of
               Inl e \<Rightarrow> Inl e
             | Inr data \<Rightarrow>
                 (case get_prop data ''response'' of
                    Inl e \<Rightarrow> Inl e
                  | Inr v \<Rightarrow> Inr \<lparr>id' = now + 1, text' = v, isUser = Some False,
                                  timestamp = ts\<rparr>))
          else Inl (Error ''Failed to get response''))"

definition errorMessage :: "int \<Rightarrow> jsstring \<Rightarrow> message" where
  "errorMessage now ts =
     \<lparr>id' = now + 1, text' = JStr apology_text, isUser = None, timestamp = ts\<rparr>"

text \<open>
  The continuation of \<^verbatim>\<open>sendMessage\<close>: \<^verbatim>\<open>try\<close>, \<^verbatim>\<open>catch\<close>, \<^verbatim>\<open>finally\<close>. Every state
  update it makes happens after the last \<^verbatim>\<open>await\<close>, so it is one step. It issues no
  request.
\<close>

definition sendMessage_settled ::
  "fetch_result \<Rightarrow> int \<Rightarrow> jsstring \<Rightarrow> App_state \<Rightarrow> App_state \<times> request list" where
  "sendMessage_settled r now ts s =
     (let s' = (case sendMessage_try r now ts of
                  Inr botMessage \<Rightarrow> s\<lparr>messages := messages s @ [botMessage]\<rparr>
                | Inl e \<Rightarrow> s\<lparr>messages := messages s @ [errorMessage now ts]\<rparr>)
      in (s'\<lparr>isLoading := False\<rparr>, []))"

record key_event =
  key :: string
  shiftKey :: bool

definition handleKeyPress ::
  "key_event \<Rightarrow> int \<Rightarrow> jsstring \<Rightarrow> App_state \<Rightarrow> App_state \<times> request list" where
  "handleKeyPress e now ts s =
     (if key e = ''Enter'' \<and> \<not> shiftKey e then sendMessage now ts s else (s, []))"

section \<open>What is rendered\<close>

datatype indicator = OpenAI | BasicMode

definition status_indicators :: "App_state \<Rightarrow> indicator list" where
  "status_indicators s =
     (if openaiStatus s = ''connected'' then [OpenAI] else [])
     @ (if openaiStatus s = ''not_configured'' then [BasicMode] else [])"

datatype avatar = UserAvatar | BotAvatar

record message_row =
  row_key :: int
  className :: string
  message_text :: jsval
  message_timestamp :: jsstring
  message_avatar :: avatar

definition render_message :: "message \<Rightarrow> message_row" where
  "render_message m =
     \<lparr>row_key = id' m,
      className = ''message '' @ (if isUser m = Some True then ''user-message'' else ''bot-message''),
      message_text = text' m,
      message_timestamp = timestamp m,
      message_avatar = (if isUser m = Some True then UserAvatar else BotAvatar)\<rparr>"

datatype chat_row = MessageRow message_row | TypingIndicator

text \<open>
  The text of a message is rendered as a child of an element (\<^verbatim>\<open>{message.text}\<close>). React
  renders a string or a number, renders nothing for a boolean, \<^verbatim>\<open>null\<close> and
  \<^verbatim>\<open>undefined\<close>, renders the members of an array one after the other, and throws on an
  object.
\<close>

fun renderable :: "jsval \<Rightarrow> bool" where
  "renderable (JObj kvs) = False"
| "renderable (JArr xs) = list_all renderable xs"
| "renderable v = True"

text \<open>
  The children of the message area: a row per message in the order of the list, then the
  typing indicator while loading; or the exception of a text that cannot be rendered.
\<close>

definition chat_messages :: "App_state \<Rightarrow> js_error + chat_row list" where
  "chat_messages s =
     (if list_all (renderable \<circ> text') (messages s)
      then Inr (map (MessageRow \<circ> render_message) (messages s)
                @ (if isLoading s then [TypingIndicator] else []))
      else Inl (Error ''Objects are not valid as a React child''))"

definition textarea_disabled :: "App_state \<Rightarrow> bool" where
  "textarea_disabled s = isLoading s"

definition send_button_disabled :: "App_state \<Rightarrow> bool" where
  "send_button_disabled s \<longleftrightarrow> trim (inputMessage s) = [] \<or> isLoading s"

text \<open>What the component function returns for a state, or the exception it throws.\<close>

record view =
  header_status :: "indicator list"
  chat_rows :: "chat_row list"
  textarea_is_disabled :: bool
  send_button_is_disabled :: bool

definition App :: "App_state \<Rightarrow> js_error + view" where
  "App s =
     (case chat_messages s of
        Inl e \<Rightarrow> Inl e
      | Inr rows \<Rightarrow>
          Inr \<lparr>header_status = status_indicators s,
               chat_rows = rows,
               textarea_is_disabled = textarea_disabled s,
               send_button_is_disabled = send_button_disabled s\<rparr>)"

section \<open>The running page\<close>

text \<open>
  The component together with the requests that are in flight. Mounting renders the
  initial state and runs the effect that calls \<^verbatim>\<open>checkOpenAIStatus\<close>.

  React renders the component again after the state updates of an event. The program
  has no error boundary, so when rendering throws React unmounts the whole tree: nothing
  is on the screen from then on, no control is left to deliver an event, and the state
  updates of continuations that still run are dropped. An unmounted page therefore
  keeps the state whose rendering threw, and nothing further happens to it.
\<close>

record page =
  ui :: App_state
  inflight :: "request list"
  unmounted :: bool

definition mount :: "jsstring \<Rightarrow> page" where
  "mount ts = \<lparr>ui = App_initial ts, inflight = checkOpenAIStatus, unmounted = False\<rparr>"

definition rerender :: "page \<Rightarrow> page" where
  "rerender p = p\<lparr>unmounted := (case App (ui p) of Inl e \<Rightarrow> True | Inr v \<Rightarrow> False)\<rparr>"

text \<open>What is on the screen.\<close>

definition screen :: "page \<Rightarrow> view option" where
  "screen p =
     (if unmounted p then None
      else (case App (ui p) of Inl e \<Rightarrow> None | Inr v \<Rightarrow> Some v))"

text \<open>
  What can happen to a mounted page: the status request settles, the user edits the
  textarea, presses a key in it or clicks the send button, a chat request settles.
  A disabled control delivers no event, and only a request in flight can settle.
  The page is rendered again after every state update, so a handler runs on the state
  of the latest render. An event that reads the clock carries the reading of
  \<^verbatim>\<open>Date.now()\<close> and the formatted time.
\<close>

datatype event =
    StatusSettled fetch_result
  | Change jsstring
  | KeyPress key_event int jsstring
  | Click int jsstring
  | ChatSettled jsstring fetch_result int jsstring

definition issue :: "page \<Rightarrow> App_state \<times> request list \<Rightarrow> page" where
  "issue p r = p\<lparr>ui := fst r, inflight := inflight p @ snd r\<rparr>"

text \<open>The handler or continuation that an event runs, on a mounted page.\<close>

fun deliver :: "event \<Rightarrow> page \<Rightarrow> page option" where
  "deliver (StatusSettled r) p =
     (if GetStatus \<in> set (inflight p)
      then Some (p\<lparr>ui := checkOpenAIStatus_settled r (ui p),
                   inflight := remove1 GetStatus (inflight p)\<rparr>)
      else None)"
| "deliver (Change v) p =
     (if textarea_disabled (ui p) then None
      else Some (p\<lparr>ui := (ui p)\<lparr>inputMessage := v\<rparr>\<rparr>))"
| "deliver (KeyPress e now ts) p =
     (if textarea_disabled (ui p) then None
      else Some (issue p (handleKeyPress e now ts (ui p))))"
| "deliver (Click now ts) p =
     (if send_button_disabled (ui p) then None
      else Some (issue p (sendMessage now ts (ui p))))"
| "deliver (ChatSettled m r now ts) p =
     (if PostChat m \<in> set (inflight p)
      then Some (issue (p\<lparr>inflight := remove1 (PostChat m) (inflight p)\<rparr>)
                       (sendMessage_settled r now ts (ui p)))
      else None)"

definition fire :: "event \<Rightarrow> page \<Rightarrow> page option" where
  "fire e p = (if unmounted p then None else map_option rerender (deliver e p))"

fun run :: "event list \<Rightarrow> page \<Rightarrow> page option" where
  "run [] p = Some p"
| "run (e # es) p = (case fire e p of None \<Rightarrow> None | Some p' \<Rightarrow> run es p')"

definition reachable :: "page \<Rightarrow> bool" where
  "reachable p \<longleftrightarrow> (\<exists>ts es. run es (mount ts) = Some p)"

text \<open>The chat requests in flight, and the identifiers in the order of the list.\<close>

definition chat_requests :: "page \<Rightarrow> request list" where
  "chat_requests p = filter (\<lambda>r. r \<noteq> GetStatus) (inflight p)"

definition ids :: "page \<Rightarrow> int list" where
  "ids p = map id' (messages (ui p))"

fun settles_status :: "event \<Rightarrow> bool" where
  "settles_status (StatusSettled r) = True"
| "settles_status e = False"

text \<open>
  The status that a settled status request stands for: what the \<^verbatim>\<open>try\<close> block sets, and
  \<^verbatim>\<open>error\<close> when it throws.
\<close>

definition derived_status :: "fetch_result \<Rightarrow> string" where
  "derived_status r = (case checkOpenAIStatus_try r of Inr v \<Rightarrow> v | Inl e \<Rightarrow> ''error'')"

text \<open>
  The identifier that an event gives out on a page, if it gives one: a click or Enter
  without Shift reads \<^verbatim>\<open>Date.now()\<close> only past the early return on blank input and uses
  the reading; a continuation always reads it and uses the reading plus one.
\<close>

fun sent_at :: "event \<Rightarrow> page \<Rightarrow> int option" where
  "sent_at (Click now ts) p =
     (if trim (inputMessage (ui p)) = [] then None else Some now)"
| "sent_at (KeyPress e now ts) p =
     (if key e = ''Enter'' \<and> \<not> shiftKey e \<and> trim (inputMessage (ui p)) \<noteq> []
      then Some now else None)"
| "sent_at e p = None"

fun completed_at :: "event \<Rightarrow> int option" where
  "completed_at (ChatSettled m r now ts) = Some now"
| "completed_at e = None"

text \<open>
  A condition on the clock readings along a sequence of events from a page, where \<open>hi\<close>
  is the identifier given out last: a send reads a value above \<open>hi\<close>, a completion reads
  a value not below it. On a page run from mount a completion follows its send and a
  send follows the completion before it, so with \<open>hi = 1\<close> at mount this says: the first
  send reads more than 1, a completion reads no less than its send, and a later send
  reads at least 2 more than the completion before it. Events that do not read the
  clock are not constrained.
\<close>

fun clock_ok :: "int \<Rightarrow> event list \<Rightarrow> page \<Rightarrow> bool" where
  "clock_ok hi [] p = True"
| "clock_ok hi (e # es) p =
     (case fire e p of
        None \<Rightarrow> True
      | Some p' \<Rightarrow>
          (case sent_at e p of
             Some now \<Rightarrow> hi < now \<and> clock_ok now es p'
           | None \<Rightarrow>
               (case completed_at e of
                  Some now \<Rightarrow> hi \<le> now \<and> clock_ok (now + 1) es p'
                | None \<Rightarrow> clock_ok hi es p')))"

text \<open>
  The facts that tie the loading flag to the chat request in flight: there is one such
  request exactly while the flag is set, and the input field is empty meanwhile. A page
  is unmounted exactly when its state does not render, and then it is not loading.
\<close>

definition page_inv :: "page \<Rightarrow> bool" where
  "page_inv p \<longleftrightarrow>
     length (chat_requests p) = (if isLoading (ui p) then 1 else 0)
     \<and> (isLoading (ui p) \<longrightarrow> inputMessage (ui p) = [])
     \<and> (unmounted p \<longleftrightarrow> \<not> list_all (renderable \<circ> text') (messages (ui p)))
     \<and> (unmounted p \<longrightarrow> \<not> isLoading (ui p))"

text \<open>
  A concrete page for the examples: the user has typed \<^verbatim>\<open>hi\<close> and clicked the send button
  at clock reading 1000, and nothing has settled yet.
\<close>

definition hi_text :: jsstring where
  "hi_text = [0x0068, 0x0069]"

definition sent_page :: page where
  "sent_page =
     \<lparr>ui = \<lparr>messages = [\<lparr>id' = 1, text' = JStr greeting_text, isUser = Some False,
                               timestamp = []\<rparr>,
                             \<lparr>id' = 1000, text' = JStr hi_text, isUser = Some True,
                               timestamp = []\<rparr>],
             inputMessage = [],
             isLoading = True,
             openaiStatus = ''checking''\<rparr>,
      inflight = [GetStatus, PostChat hi_text],
      unmounted = False\<rparr>"

text \<open>
  The same page two events later: the request was rejected while the clock still read
  1000, and the user sent \<^verbatim>\<open>hi\<close> again at reading 1002.
\<close>

definition resent_page :: page where
  "resent_page =
     \<lparr>ui = \<lparr>messages = [\<lparr>id' = 1, text' = JStr greeting_text, isUser = Some False,
                               timestamp = []\<rparr>,
                             \<lparr>id' = 1000, text' = JStr hi_text, isUser = Some True,
                               timestamp = []\<rparr>,
                             \<lparr>id' = 1001, text' = JStr apology_text, isUser = None,
                               timestamp = []\<rparr>,
                             \<lparr>id' = 1002, text' = JStr hi_text, isUser = Some True,
                               timestamp = []\<rparr>],
             inputMessage = [],
             isLoading = True,
             openaiStatus = ''checking''\<rparr>,
      inflight = [GetStatus, PostChat hi_text],
      unmounted = False\<rparr>"

text \<open>
  A reply whose \<^verbatim>\<open>response\<close> member is an object, and the page that \<open>sent_page\<close> becomes
  when the chat request settles with it at reading 1001.
\<close>

definition object_reply :: fetch_result where
  "object_reply = Resolved \<lparr>ok = True, json = Inr (JObj [(''response'', JObj [])])\<rparr>"

definition crashed_page :: page where
  "crashed_page =
     \<lparr>ui = \<lparr>messages = [\<lparr>id' = 1, text' = JStr greeting_text, isUser = Some False,
                               timestamp = []\<rparr>,
                             \<lparr>id' = 1000, text' = JStr hi_text, isUser = Some True,
                               timestamp = []\<rparr>,
                             \<lparr>id' = 1002, text' = JObj [], isUser = Some False,
                               timestamp = []\<rparr>],
             inputMessage = [],
             isLoading = False,
             openaiStatus = ''checking''\<rparr>,
      inflight = [GetStatus],
      unmounted = True\<rparr>"

section \<open>Basic facts\<close>

lemma all_dropWhile: "(\<forall>x \<in> set (dropWhile P xs). P x) \<longleftrightarrow> (\<forall>x \<in> set xs. P x)"
  by (induction xs) auto

lemma trim_empty_iff: "trim s = [] \<longleftrightarrow> (\<forall>c \<in> set s. isWhiteSpace c)"
  by (simp add: trim_def all_dropWhile)

lemma run_append:
  "run (es1 @ es2) p = (case run es1 p of None \<Rightarrow> None | Some q \<Rightarrow> run es2 q)"
  by (induction es1 arbitrary: p) (auto split: option.splits)

section \<open>Empty input\<close>

text \<open>
  C2. When the input is empty or consists of white space only, \<^verbatim>\<open>sendMessage\<close> issues no
  request and returns the state as it was (message list, input field and loading flag
  included), the Enter key does the same, and the send button is rendered disabled.
\<close>

theorem sendMessage_blank_input:
  assumes "\<forall>c \<in> set (inputMessage s). isWhiteSpace c"
  shows "sendMessage now ts s = (s, [])
       \<and> handleKeyPress e now ts s = (s, [])
       \<and> send_button_disabled s"
  using assms
  by (simp add: sendMessage_def handleKeyPress_def send_button_disabled_def trim_empty_iff)

theorem sendMessage_blank_input_witness:
  "list_all isWhiteSpace (inputMessage ((App_initial [])\<lparr>inputMessage := [0x0020, 0x000A, 0x3000]\<rparr>))
   \<and> sendMessage 1000 [] ((App_initial [])\<lparr>inputMessage := [0x0020, 0x000A, 0x3000]\<rparr>)
       = ((App_initial [])\<lparr>inputMessage := [0x0020, 0x000A, 0x3000]\<rparr>, [])
   \<and> handleKeyPress \<lparr>key = ''Enter'', shiftKey = False\<rparr> 1000 []
         ((App_initial [])\<lparr>inputMessage := [0x0020, 0x000A, 0x3000]\<rparr>)
       = ((App_initial [])\<lparr>inputMessage := [0x0020, 0x000A, 0x3000]\<rparr>, [])
   \<and> send_button_disabled ((App_initial [])\<lparr>inputMessage := [0x0020, 0x000A, 0x3000]\<rparr>)"
proof -
  have blank: "\<forall>c \<in> set (inputMessage ((App_initial [])\<lparr>inputMessage := [0x0020, 0x000A, 0x3000]\<rparr>)).
      isWhiteSpace c"
    by (simp add: isWhiteSpace_def)
  from sendMessage_blank_input [OF blank, of 1000 "[]" "\<lparr>key = ''Enter'', shiftKey = False\<rparr>"]
  show ?thesis by (simp add: isWhiteSpace_def)
qed

section \<open>The loading flag and the request in flight\<close>

lemma filter_remove1_other: "\<not> P x \<Longrightarrow> filter P (remove1 x xs) = filter P xs"
  by (induction xs) auto

lemma length_filter_remove1:
  "x \<in> set xs \<Longrightarrow> P x \<Longrightarrow> Suc (length (filter P (remove1 x xs))) = length (filter P xs)"
  by (induction xs) auto

lemma sendMessage_cases:
  "sendMessage now ts s = (s, []) \<and> trim (inputMessage s) = []
   \<or> sendMessage now ts s =
        (s\<lparr>messages := messages s @ [\<lparr>id' = now, text' = JStr (inputMessage s),
                                       isUser = Some True, timestamp = ts\<rparr>],
           inputMessage := [], isLoading := True\<rparr>,
         [PostChat (inputMessage s)]) \<and> trim (inputMessage s) \<noteq> []"
  by (simp add: sendMessage_def Let_def)

lemma rerender_fields:
  "ui (rerender p) = ui p"
  "inflight (rerender p) = inflight p"
  "unmounted (rerender p) \<longleftrightarrow> \<not> list_all (renderable \<circ> text') (messages (ui p))"
  by (simp_all add: rerender_def App_def chat_messages_def)

lemma fire_SomeD:
  assumes "fire e p = Some p'"
  obtains q where "\<not> unmounted p" "deliver e p = Some q" "p' = rerender q"
  using assms by (auto simp: fire_def split: if_splits)

lemma page_inv_mount: "page_inv (mount ts)"
  by (simp add: page_inv_def mount_def chat_requests_def checkOpenAIStatus_def App_initial_def)

lemma page_inv_send:
  assumes "page_inv p" "\<not> isLoading (ui p)" "\<not> unmounted p"
  shows "page_inv (rerender (issue p (sendMessage now ts (ui p))))"
  using assms sendMessage_cases [of now ts "ui p"]
  by (auto simp: page_inv_def issue_def chat_requests_def rerender_fields)

lemma page_inv_deliver:
  assumes "deliver e p = Some q" "page_inv p" "\<not> unmounted p"
  shows "page_inv (rerender q)"
proof (cases e)
  case (StatusSettled r)
  with assms show ?thesis
    by (auto simp: page_inv_def chat_requests_def filter_remove1_other rerender_fields
        checkOpenAIStatus_settled_def split: if_splits sum.splits)
next
  case (Change v)
  with assms show ?thesis
    by (auto simp: page_inv_def chat_requests_def textarea_disabled_def rerender_fields
        split: if_splits)
next
  case (KeyPress k now ts)
  with assms have nl: "\<not> isLoading (ui p)"
    by (auto simp: textarea_disabled_def split: if_splits)
  show ?thesis
  proof (cases "key k = ''Enter'' \<and> \<not> shiftKey k")
    case True
    with KeyPress assms nl show ?thesis
      using page_inv_send [OF assms(2) nl assms(3), of now ts]
      by (auto simp: handleKeyPress_def textarea_disabled_def split: if_splits)
  next
    case False
    with KeyPress assms nl show ?thesis
      by (auto simp: handleKeyPress_def textarea_disabled_def issue_def page_inv_def
          chat_requests_def rerender_fields split: if_splits)
  qed
next
  case (Click now ts)
  with assms have nl: "\<not> isLoading (ui p)"
    by (auto simp: send_button_disabled_def split: if_splits)
  with Click assms show ?thesis
    using page_inv_send [OF assms(2) nl assms(3), of now ts]
    by (auto split: if_splits)
next
  case (ChatSettled m r now ts)
  with assms have mem: "PostChat m \<in> set (inflight p)"
    by (auto split: if_splits)
  have "Suc (length (filter (\<lambda>r. r \<noteq> GetStatus) (remove1 (PostChat m) (inflight p))))
        = length (chat_requests p)"
    unfolding chat_requests_def using mem by (intro length_filter_remove1) auto
  with ChatSettled assms mem show ?thesis
    by (auto simp: page_inv_def chat_requests_def issue_def sendMessage_settled_def Let_def
        rerender_fields split: if_splits sum.splits)
qed

lemma page_inv_fire:
  assumes "fire e p = Some p'" "page_inv p"
  shows "page_inv p'"
  using assms(1)
proof (rule fire_SomeD)
  fix q assume "\<not> unmounted p" "deliver e p = Some q" "p' = rerender q"
  with page_inv_deliver [OF _ assms(2)] show ?thesis by simp
qed

lemma page_inv_run: "run es p = Some p' \<Longrightarrow> page_inv p \<Longrightarrow> page_inv p'"
  by (induction es arbitrary: p) (auto split: option.splits dest: page_inv_fire)

lemma reachable_page_inv: "reachable p \<Longrightarrow> page_inv p"
  by (auto simp: reachable_def dest: page_inv_run [OF _ page_inv_mount])

section \<open>Sending a message\<close>

lemma sendMessage_try_Inr_iff:
  "sendMessage_try r now ts = Inr m \<longleftrightarrow>
     (\<exists>resp data v. r = Resolved resp \<and> ok resp \<and> json resp = Inr data
        \<and> get_prop data ''response'' = Inr v
        \<and> m = \<lparr>id' = now + 1, text' = v, isUser = Some False, timestamp = ts\<rparr>)"
  by (auto simp: sendMessage_try_def split: fetch_result.splits sum.splits)

lemma sendMessage_settled_messages:
  "messages (fst (sendMessage_settled r now ts s)) =
     messages s @ [case sendMessage_try r now ts of Inr b \<Rightarrow> b | Inl e \<Rightarrow> errorMessage now ts]"
  by (simp add: sendMessage_settled_def Let_def split: sum.splits)

text \<open>
  C1. When the input is not blank, \<^verbatim>\<open>sendMessage\<close> appends exactly one entry, the user's,
  and issues the one chat request. Whenever a chat request settles, the continuation
  appends exactly one entry to the list as it is then: the reply entry (identifier the
  clock reading plus one, the text of the \<^verbatim>\<open>response\<close> member, not from the user)
  when the response is OK and its body is a value with readable members, and the fixed
  error entry in every other case.
\<close>

theorem sendMessage_one_entry_each:
  assumes "trim (inputMessage s) \<noteq> []"
  shows "messages (fst (sendMessage now ts s))
           = messages s @ [\<lparr>id' = now, text' = JStr (inputMessage s), isUser = Some True,
                             timestamp = ts\<rparr>]
       \<and> snd (sendMessage now ts s) = [PostChat (inputMessage s)]
       \<and> (\<exists>m. messages (fst (sendMessage_settled r now' ts' s')) = messages s' @ [m]
              \<and> ((\<exists>resp data v. r = Resolved resp \<and> ok resp \<and> json resp = Inr data
                      \<and> get_prop data ''response'' = Inr v
                      \<and> m = \<lparr>id' = now' + 1, text' = v, isUser = Some False,
                              timestamp = ts'\<rparr>)
                  \<or> (m = errorMessage now' ts'
                      \<and> (\<forall>resp data. r = Resolved resp \<and> ok resp \<and> json resp = Inr data
                            \<longrightarrow> data = JNull \<or> data = JUndefined))))"
proof -
  have start: "messages (fst (sendMessage now ts s))
           = messages s @ [\<lparr>id' = now, text' = JStr (inputMessage s), isUser = Some True,
                             timestamp = ts\<rparr>]
       \<and> snd (sendMessage now ts s) = [PostChat (inputMessage s)]"
    using assms by (simp add: sendMessage_def Let_def)
  have finish: "\<exists>m. messages (fst (sendMessage_settled r now' ts' s')) = messages s' @ [m]
              \<and> ((\<exists>resp data v. r = Resolved resp \<and> ok resp \<and> json resp = Inr data
                      \<and> get_prop data ''response'' = Inr v
                      \<and> m = \<lparr>id' = now' + 1, text' = v, isUser = Some False,
                              timestamp = ts'\<rparr>)
                  \<or> (m = errorMessage now' ts'
                      \<and> (\<forall>resp data. r = Resolved resp \<and> ok resp \<and> json resp = Inr data
                            \<longrightarrow> data = JNull \<or> data = JUndefined)))"
  proof (cases "sendMessage_try r now' ts'")
    case (Inr b)
    then obtain resp data v where
      "r = Resolved resp" "ok resp" "json resp = Inr data" "get_prop data ''response'' = Inr v"
      "b = \<lparr>id' = now' + 1, text' = v, isUser = Some False, timestamp = ts'\<rparr>"
      unfolding sendMessage_try_Inr_iff by blast
    moreover have "messages (fst (sendMessage_settled r now' ts' s')) = messages s' @ [b]"
      using Inr sendMessage_settled_messages [of r now' ts' s'] by simp
    ultimately show ?thesis by blast
  next
    case (Inl e)
    have "data = JNull \<or> data = JUndefined"
      if "r = Resolved resp" "ok resp" "json resp = Inr data" for resp data
      using Inl that by (cases data) (auto simp: sendMessage_try_def)
    then show ?thesis
      using Inl sendMessage_settled_messages [of r now' ts' s'] by auto
  qed
  from start finish show ?thesis by blast
qed

theorem sendMessage_one_entry_each_witness:
  "trim (inputMessage ((App_initial [])\<lparr>inputMessage := [0x0068, 0x0069]\<rparr>)) \<noteq> []
   \<and> messages (fst (sendMessage 1000 [] ((App_initial [])\<lparr>inputMessage := [0x0068, 0x0069]\<rparr>)))
       = messages (App_initial [])
         @ [\<lparr>id' = 1000, text' = JStr [0x0068, 0x0069], isUser = Some True, timestamp = []\<rparr>]
   \<and> snd (sendMessage 1000 [] ((App_initial [])\<lparr>inputMessage := [0x0068, 0x0069]\<rparr>))
       = [PostChat [0x0068, 0x0069]]
   \<and> messages (fst (sendMessage_settled (Rejected NetworkError) 1005 [] (App_initial [])))
       = messages (App_initial []) @ [errorMessage 1005 []]"
proof -
  have nonblank: "trim (inputMessage ((App_initial [])\<lparr>inputMessage := [0x0068, 0x0069]\<rparr>)) \<noteq> []"
    by (simp add: trim_def isWhiteSpace_def)
  from sendMessage_one_entry_each
         [OF nonblank, of 1000 "[]" "Rejected NetworkError" 1005 "[]" "App_initial []"]
  show ?thesis using nonblank by auto
qed

section \<open>Failure of a chat request\<close>

text \<open>
  C4. When the chat request ends in a rejected \<^verbatim>\<open>fetch\<close> or in a response that is not OK,
  the continuation appends the one entry carrying the fixed apology text, the same
  whatever the exception or the response was, clears the loading flag and issues no
  further request.
\<close>

theorem sendMessage_failure_fixed_apology:
  assumes "r = Rejected e \<or> (r = Resolved resp \<and> \<not> ok resp)"
  shows "sendMessage_settled r now ts s =
           (s\<lparr>messages := messages s @ [\<lparr>id' = now + 1, text' = JStr apology_text,
                                          isUser = None, timestamp = ts\<rparr>],
              isLoading := False\<rparr>, [])"
  using assms
  by (auto simp: sendMessage_settled_def sendMessage_try_def errorMessage_def)

theorem sendMessage_failure_fixed_apology_witness:
  "(Resolved \<lparr>ok = False, json = Inr JNull\<rparr> = Rejected NetworkError
      \<or> (Resolved \<lparr>ok = False, json = Inr JNull\<rparr> = Resolved \<lparr>ok = False, json = Inr JNull\<rparr>
          \<and> \<not> ok \<lparr>ok = False, json = Inr JNull\<rparr>))
   \<and> sendMessage_settled (Resolved \<lparr>ok = False, json = Inr JNull\<rparr>) 1005 [] (App_initial [])
       = ((App_initial [])\<lparr>messages := messages (App_initial [])
              @ [\<lparr>id' = 1006, text' = JStr apology_text, isUser = None, timestamp = []\<rparr>],
            isLoading := False\<rparr>, [])"
proof -
  have failed: "Resolved \<lparr>ok = False, json = Inr JNull\<rparr> = Rejected NetworkError
      \<or> (Resolved \<lparr>ok = False, json = Inr JNull\<rparr> = Resolved \<lparr>ok = False, json = Inr JNull\<rparr>
          \<and> \<not> ok \<lparr>ok = False, json = Inr JNull\<rparr>)"
    by simp
  from sendMessage_failure_fixed_apology [OF failed, of 1005 "[]" "App_initial []"] failed
  show ?thesis by simp
qed

text \<open>
  C8. Whenever the \<^verbatim>\<open>try\<close> block throws, the entry that the \<^verbatim>\<open>catch\<close> block appends has
  no \<^verbatim>\<open>isUser\<close> property, so it carries neither of the two boolean values the message
  shape asks for; it is rendered with the class \<^verbatim>\<open>message bot-message\<close> and the bot
  avatar, exactly as the entry of a reply (\<^verbatim>\<open>isUser\<close> false) is.
\<close>

theorem errorMessage_rendered_as_bot:
  assumes "sendMessage_try r now ts = Inl e"
  shows "messages (fst (sendMessage_settled r now ts s)) = messages s @ [errorMessage now ts]
       \<and> isUser (last (messages (fst (sendMessage_settled r now ts s)))) = None
       \<and> className (render_message (last (messages (fst (sendMessage_settled r now ts s)))))
           = ''message bot-message''
       \<and> message_avatar (render_message (last (messages (fst (sendMessage_settled r now ts s)))))
           = BotAvatar
       \<and> className (render_message \<lparr>id' = n, text' = v, isUser = Some False, timestamp = t\<rparr>)
           = ''message bot-message''
       \<and> message_avatar (render_message \<lparr>id' = n, text' = v, isUser = Some False, timestamp = t\<rparr>)
           = BotAvatar"
  using assms
  by (simp add: sendMessage_settled_def errorMessage_def render_message_def)

theorem errorMessage_rendered_as_bot_witness:
  "sendMessage_try (Resolved \<lparr>ok = False, json = Inr JNull\<rparr>) 1005 []
     = Inl (Error ''Failed to get response'')
   \<and> messages (fst (sendMessage_settled (Resolved \<lparr>ok = False, json = Inr JNull\<rparr>)
                      1005 [] (App_initial [])))
       = messages (App_initial []) @ [errorMessage 1005 []]
   \<and> isUser (last (messages (fst (sendMessage_settled (Resolved \<lparr>ok = False, json = Inr JNull\<rparr>)
                                   1005 [] (App_initial []))))) = None
   \<and> className (render_message (last (messages (fst (sendMessage_settled
                 (Resolved \<lparr>ok = False, json = Inr JNull\<rparr>) 1005 [] (App_initial []))))))
       = ''message bot-message''
   \<and> message_avatar (render_message (last (messages (fst (sendMessage_settled
                 (Resolved \<lparr>ok = False, json = Inr JNull\<rparr>) 1005 [] (App_initial []))))))
       = BotAvatar"
proof -
  have failed: "sendMessage_try (Resolved \<lparr>ok = False, json = Inr JNull\<rparr>) 1005 []
     = Inl (Error ''Failed to get response'')"
    by (simp add: sendMessage_try_def)
  from errorMessage_rendered_as_bot [OF failed, of "App_initial []"] failed
  show ?thesis by blast
qed

section \<open>Pages with a request in flight\<close>

lemma sent_page_run: "run [Change hi_text, Click 1000 []] (mount []) = Some sent_page"
  by (simp add: mount_def App_initial_def checkOpenAIStatus_def textarea_disabled_def
      send_button_disabled_def trim_def isWhiteSpace_def sendMessage_def issue_def Let_def
      hi_text_def sent_page_def fire_def rerender_def App_def chat_messages_def)

lemma reachable_sent_page: "reachable sent_page"
  unfolding reachable_def using sent_page_run by blast

lemma rejected_page_fire:
  "fire (ChatSettled hi_text (Rejected NetworkError) 1005 []) sent_page
     = Some (sent_page\<lparr>ui := fst (sendMessage_settled (Rejected NetworkError) 1005 []
                                    (ui sent_page)),
                       inflight := [GetStatus]\<rparr>)"
  by (simp add: sent_page_def fire_def rerender_def App_def chat_messages_def issue_def
      sendMessage_settled_def sendMessage_try_def errorMessage_def Let_def)

lemma crashed_page_fire:
  "fire (ChatSettled hi_text object_reply 1001 []) sent_page = Some crashed_page"
  by (simp add: sent_page_def crashed_page_def object_reply_def fire_def rerender_def App_def
      chat_messages_def issue_def sendMessage_settled_def sendMessage_try_def Let_def)

lemma crashed_page_run:
  "run [Change hi_text, Click 1000 [], ChatSettled hi_text object_reply 1001 []] (mount [])
     = Some crashed_page"
proof -
  have "run ([Change hi_text, Click 1000 []] @ [ChatSettled hi_text object_reply 1001 []])
          (mount []) = Some crashed_page"
    unfolding run_append sent_page_run by (simp add: crashed_page_fire)
  then show ?thesis by (simp only: append.simps)
qed

section \<open>The input field\<close>

lemma fire_ChatSettled_ui:
  "fire (ChatSettled m r now ts) p = Some p' \<Longrightarrow>
     ui p' = fst (sendMessage_settled r now ts (ui p))
     \<and> inflight p' = remove1 (PostChat m) (inflight p)
     \<and> PostChat m \<in> set (inflight p)
     \<and> \<not> unmounted p"
  by (auto simp: fire_def rerender_fields issue_def sendMessage_settled_def Let_def
      split: if_splits)

lemma inflight_chat_loading:
  assumes "page_inv p" "PostChat m \<in> set (inflight p)"
  shows "isLoading (ui p)"
proof (rule ccontr)
  assume "\<not> isLoading (ui p)"
  with assms(1) have "chat_requests p = []" by (simp add: page_inv_def)
  with assms(2) show False by (auto simp: chat_requests_def filter_empty_conv)
qed

text \<open>
  C9. A send with non-blank input sets the input field to the empty string in the same
  step that issues the request. The continuation leaves the field as it finds it,
  whatever the outcome, and on a running page it finds it empty: when a chat request
  settles, the failure case included, the field is empty afterwards.
\<close>

theorem sendMessage_clears_input:
  assumes "trim (inputMessage s) \<noteq> []"
  shows "inputMessage (fst (sendMessage now ts s)) = []
       \<and> snd (sendMessage now ts s) = [PostChat (inputMessage s)]
       \<and> inputMessage (fst (sendMessage_settled r now' ts' s')) = inputMessage s'
       \<and> inputMessage (checkOpenAIStatus_settled r s') = inputMessage s'
       \<and> (\<forall>p p' m. reachable p \<and> fire (ChatSettled m r now' ts') p = Some p'
             \<longrightarrow> inputMessage (ui p) = [] \<and> inputMessage (ui p') = [])"
proof -
  have start: "inputMessage (fst (sendMessage now ts s)) = []
       \<and> snd (sendMessage now ts s) = [PostChat (inputMessage s)]"
    using assms by (simp add: sendMessage_def Let_def)
  have keep: "inputMessage (fst (sendMessage_settled r now' ts' s')) = inputMessage s'" for s'
    by (simp add: sendMessage_settled_def Let_def split: sum.splits)
  have keep_status: "inputMessage (checkOpenAIStatus_settled r s') = inputMessage s'"
    by (simp add: checkOpenAIStatus_settled_def split: sum.splits)
  have page: "inputMessage (ui p) = [] \<and> inputMessage (ui p') = []"
    if "reachable p" "fire (ChatSettled m r now' ts') p = Some p'" for p p' m
  proof -
    from that(1) have inv: "page_inv p" by (rule reachable_page_inv)
    from fire_ChatSettled_ui [OF that(2)] have
      ui: "ui p' = fst (sendMessage_settled r now' ts' (ui p))" and
      mem: "PostChat m \<in> set (inflight p)" by simp_all
    from inflight_chat_loading [OF inv mem] inv have "inputMessage (ui p) = []"
      by (simp add: page_inv_def)
    with ui keep [of "ui p"] show ?thesis by simp
  qed
  from start keep [of s'] keep_status page show ?thesis by blast
qed

theorem sendMessage_clears_input_witness:
  "trim (inputMessage ((App_initial [])\<lparr>inputMessage := hi_text\<rparr>)) \<noteq> []
   \<and> inputMessage (fst (sendMessage 1000 [] ((App_initial [])\<lparr>inputMessage := hi_text\<rparr>))) = []
   \<and> reachable sent_page
   \<and> inputMessage (ui sent_page) = []
   \<and> fire (ChatSettled hi_text (Rejected NetworkError) 1005 []) sent_page
       = Some (sent_page\<lparr>ui := fst (sendMessage_settled (Rejected NetworkError) 1005 []
                                      (ui sent_page)),
                         inflight := [GetStatus]\<rparr>)
   \<and> inputMessage (ui (sent_page\<lparr>ui := fst (sendMessage_settled (Rejected NetworkError) 1005 []
                                      (ui sent_page)),
                         inflight := [GetStatus]\<rparr>)) = []"
proof -
  have nonblank: "trim (inputMessage ((App_initial [])\<lparr>inputMessage := hi_text\<rparr>)) \<noteq> []"
    by (simp add: trim_def isWhiteSpace_def hi_text_def)
  from sendMessage_clears_input
         [OF nonblank, of 1000 "[]" "Rejected NetworkError" 1005 "[]" "ui sent_page"]
       nonblank reachable_sent_page rejected_page_fire
  show ?thesis by blast
qed

section \<open>While a chat request is in flight\<close>

lemma screen_page_inv:
  assumes "page_inv p"
  shows "screen p =
           (if list_all (renderable \<circ> text') (messages (ui p))
            then Some \<lparr>header_status = status_indicators (ui p),
                       chat_rows = map (MessageRow \<circ> render_message) (messages (ui p))
                                   @ (if isLoading (ui p) then [TypingIndicator] else []),
                       textarea_is_disabled = textarea_disabled (ui p),
                       send_button_is_disabled = send_button_disabled (ui p)\<rparr>
            else None)"
  using assms by (simp add: page_inv_def screen_def App_def chat_messages_def)

lemma renderable_settled:
  "list_all (renderable \<circ> text') (messages (fst (sendMessage_settled r now ts s))) \<longleftrightarrow>
     list_all (renderable \<circ> text') (messages s)
     \<and> \<not> (\<exists>resp data v. r = Resolved resp \<and> ok resp \<and> json resp = Inr data
              \<and> get_prop data ''response'' = Inr v \<and> \<not> renderable v)"
proof (cases "sendMessage_try r now ts")
  case (Inl e)
  then have "\<not> (\<exists>resp data v. r = Resolved resp \<and> ok resp \<and> json resp = Inr data
              \<and> get_prop data ''response'' = Inr v)"
    by (auto simp: sendMessage_try_def)
  with Inl show ?thesis
    by (auto simp: sendMessage_settled_messages errorMessage_def)
next
  case (Inr b)
  then obtain resp data v where
    r: "r = Resolved resp" "ok resp" "json resp = Inr data" "get_prop data ''response'' = Inr v"
    and b: "b = \<lparr>id' = now + 1, text' = v, isUser = Some False, timestamp = ts\<rparr>"
    unfolding sendMessage_try_Inr_iff by blast
  from r have "(\<exists>resp data v. r = Resolved resp \<and> ok resp \<and> json resp = Inr data
              \<and> get_prop data ''response'' = Inr v \<and> \<not> renderable v) \<longleftrightarrow> \<not> renderable v"
    by auto
  with Inr b show ?thesis
    by (auto simp: sendMessage_settled_messages)
qed

text \<open>
  C5, as amended. On a running page a chat request is in flight exactly while
  \<^verbatim>\<open>isLoading\<close> is set. While it is set the page is on the screen with the textarea and the
  send button disabled and the typing indicator as the last row of the message area.
  A click on the enabled send button sets the flag. When the chat request settles,
  whatever the outcome, the flag is cleared and no chat request remains in flight.
  Afterwards either the page is on the screen, with the textarea enabled and no typing
  indicator, or nothing is on the screen; the latter happens exactly when the response
  was OK and its \<^verbatim>\<open>response\<close> member is not a valid child (an object, or an array that
  holds one), so that rendering the reply throws.
\<close>

theorem loading_while_in_flight:
  assumes "reachable p"
  shows "((\<exists>m. PostChat m \<in> set (inflight p)) \<longleftrightarrow> isLoading (ui p))
       \<and> (isLoading (ui p) \<longrightarrow>
            (\<exists>v. screen p = Some v \<and> textarea_is_disabled v \<and> send_button_is_disabled v
                 \<and> TypingIndicator \<in> set (chat_rows v)
                 \<and> last (chat_rows v) = TypingIndicator))
       \<and> (\<forall>now ts p'. fire (Click now ts) p = Some p' \<longrightarrow> isLoading (ui p'))
       \<and> (\<forall>m r now ts p'. fire (ChatSettled m r now ts) p = Some p' \<longrightarrow>
            \<not> isLoading (ui p') \<and> chat_requests p' = []
            \<and> (\<forall>v. screen p' = Some v \<longrightarrow>
                    \<not> textarea_is_disabled v \<and> TypingIndicator \<notin> set (chat_rows v))
            \<and> (screen p' = None \<longleftrightarrow>
                  (\<exists>resp data v. r = Resolved resp \<and> ok resp \<and> json resp = Inr data
                      \<and> get_prop data ''response'' = Inr v \<and> \<not> renderable v)))"
proof -
  from assms have inv: "page_inv p" by (rule reachable_page_inv)
  have a: "(\<exists>m. PostChat m \<in> set (inflight p)) \<longleftrightarrow> isLoading (ui p)"
  proof
    assume "\<exists>m. PostChat m \<in> set (inflight p)"
    then show "isLoading (ui p)" using inflight_chat_loading [OF inv] by blast
  next
    assume "isLoading (ui p)"
    with inv have "length (chat_requests p) = 1" by (simp add: page_inv_def)
    then obtain q where "q \<in> set (chat_requests p)" by (cases "chat_requests p") auto
    then have q: "q \<in> set (inflight p)" "q \<noteq> GetStatus" by (auto simp: chat_requests_def)
    from q(2) obtain m where "q = PostChat m" by (cases q) auto
    with q(1) show "\<exists>m. PostChat m \<in> set (inflight p)" by blast
  qed
  have b: "\<exists>v. screen p = Some v \<and> textarea_is_disabled v \<and> send_button_is_disabled v
                 \<and> TypingIndicator \<in> set (chat_rows v)
                 \<and> last (chat_rows v) = TypingIndicator"
    if "isLoading (ui p)"
  proof -
    from inv that have "list_all (renderable \<circ> text') (messages (ui p))"
      by (auto simp: page_inv_def)
    with that show ?thesis
      by (simp add: screen_page_inv [OF inv] textarea_disabled_def send_button_disabled_def)
  qed
  have c: "isLoading (ui p')" if "fire (Click now ts) p = Some p'" for now ts p'
    using that
    by (auto simp: fire_def rerender_fields send_button_disabled_def sendMessage_def Let_def
        issue_def split: if_splits)
  have d: "\<not> isLoading (ui p') \<and> chat_requests p' = []
            \<and> (\<forall>v. screen p' = Some v \<longrightarrow>
                    \<not> textarea_is_disabled v \<and> TypingIndicator \<notin> set (chat_rows v))
            \<and> (screen p' = None \<longleftrightarrow>
                  (\<exists>resp data v. r = Resolved resp \<and> ok resp \<and> json resp = Inr data
                      \<and> get_prop data ''response'' = Inr v \<and> \<not> renderable v))"
    if f: "fire (ChatSettled m r now ts) p = Some p'" for m r now ts p'
  proof -
    from fire_ChatSettled_ui [OF f] have
      ui: "ui p' = fst (sendMessage_settled r now ts (ui p))" and mounted: "\<not> unmounted p"
      by simp_all
    from ui have nl: "\<not> isLoading (ui p')"
      by (simp add: sendMessage_settled_def Let_def)
    have inv': "page_inv p'" by (rule page_inv_fire [OF f inv])
    with nl have none: "chat_requests p' = []"
      by (simp add: page_inv_def)
    from inv mounted have "list_all (renderable \<circ> text') (messages (ui p))"
      by (simp add: page_inv_def)
    with ui renderable_settled [of r now ts "ui p"] have
      rn: "list_all (renderable \<circ> text') (messages (ui p')) \<longleftrightarrow>
            \<not> (\<exists>resp data v. r = Resolved resp \<and> ok resp \<and> json resp = Inr data
              \<and> get_prop data ''response'' = Inr v \<and> \<not> renderable v)"
      by simp
    from nl have shown: "\<not> textarea_is_disabled v \<and> TypingIndicator \<notin> set (chat_rows v)"
      if "screen p' = Some v" for v
      using that unfolding screen_page_inv [OF inv']
      by (auto simp: textarea_disabled_def split: if_splits)
    have "screen p' = None \<longleftrightarrow> \<not> list_all (renderable \<circ> text') (messages (ui p'))"
      unfolding screen_page_inv [OF inv'] by simp
    with rn have "screen p' = None \<longleftrightarrow>
                  (\<exists>resp data v. r = Resolved resp \<and> ok resp \<and> json resp = Inr data
                      \<and> get_prop data ''response'' = Inr v \<and> \<not> renderable v)"
      by blast
    with nl none shown show ?thesis by blast
  qed
  from a b c d show ?thesis by blast
qed

theorem loading_while_in_flight_witness:
  "reachable sent_page
   \<and> isLoading (ui sent_page)
   \<and> PostChat hi_text \<in> set (inflight sent_page)
   \<and> map_option textarea_is_disabled (screen sent_page) = Some True
   \<and> map_option send_button_is_disabled (screen sent_page) = Some True
   \<and> map_option (last \<circ> chat_rows) (screen sent_page) = Some TypingIndicator
   \<and> fire (ChatSettled hi_text (Rejected NetworkError) 1005 []) sent_page
       = Some (sent_page\<lparr>ui := fst (sendMessage_settled (Rejected NetworkError) 1005 []
                                      (ui sent_page)),
                         inflight := [GetStatus]\<rparr>)
   \<and> isLoading (ui (sent_page\<lparr>ui := fst (sendMessage_settled (Rejected NetworkError) 1005 []
                                      (ui sent_page)),
                         inflight := [GetStatus]\<rparr>)) = False
   \<and> map_option textarea_is_disabled
        (screen (sent_page\<lparr>ui := fst (sendMessage_settled (Rejected NetworkError) 1005 []
                                      (ui sent_page)),
                         inflight := [GetStatus]\<rparr>)) = Some False"
proof -
  have loading: "isLoading (ui sent_page)" "PostChat hi_text \<in> set (inflight sent_page)"
    by (simp_all add: sent_page_def)
  have shown: "screen (sent_page\<lparr>ui := fst (sendMessage_settled (Rejected NetworkError) 1005 []
                                      (ui sent_page)),
                         inflight := [GetStatus]\<rparr>) \<noteq> None"
    by (simp add: screen_def App_def chat_messages_def sent_page_def sendMessage_settled_def
        sendMessage_try_def errorMessage_def Let_def)
  from loading_while_in_flight [OF reachable_sent_page] have
    while: "isLoading (ui sent_page) \<longrightarrow>
            (\<exists>v. screen sent_page = Some v \<and> textarea_is_disabled v
                 \<and> send_button_is_disabled v \<and> TypingIndicator \<in> set (chat_rows v)
                 \<and> last (chat_rows v) = TypingIndicator)"
    and after: "\<forall>m r now ts p'. fire (ChatSettled m r now ts) sent_page = Some p' \<longrightarrow>
            \<not> isLoading (ui p') \<and> chat_requests p' = []
            \<and> (\<forall>v. screen p' = Some v \<longrightarrow>
                    \<not> textarea_is_disabled v \<and> TypingIndicator \<notin> set (chat_rows v))
            \<and> (screen p' = None \<longleftrightarrow>
                  (\<exists>resp data v. r = Resolved resp \<and> ok resp \<and> json resp = Inr data
                      \<and> get_prop data ''response'' = Inr v \<and> \<not> renderable v))"
    by blast+
  from while loading(1) obtain v where
    "screen sent_page = Some v" "textarea_is_disabled v" "send_button_is_disabled v"
    "last (chat_rows v) = TypingIndicator"
    by blast
  then have before: "map_option textarea_is_disabled (screen sent_page) = Some True"
    "map_option send_button_is_disabled (screen sent_page) = Some True"
    "map_option (last \<circ> chat_rows) (screen sent_page) = Some TypingIndicator"
    by simp_all
  from after rejected_page_fire have
    nl: "\<not> isLoading (ui (sent_page\<lparr>ui := fst (sendMessage_settled (Rejected NetworkError)
                                      1005 [] (ui sent_page)),
                         inflight := [GetStatus]\<rparr>))"
    and en: "\<forall>v. screen (sent_page\<lparr>ui := fst (sendMessage_settled (Rejected NetworkError)
                                      1005 [] (ui sent_page)),
                         inflight := [GetStatus]\<rparr>) = Some v \<longrightarrow> \<not> textarea_is_disabled v"
    by blast+
  from shown en have "map_option textarea_is_disabled
        (screen (sent_page\<lparr>ui := fst (sendMessage_settled (Rejected NetworkError) 1005 []
                                      (ui sent_page)),
                         inflight := [GetStatus]\<rparr>)) = Some False"
    by (cases "screen (sent_page\<lparr>ui := fst (sendMessage_settled (Rejected NetworkError) 1005 []
                                      (ui sent_page)),
                         inflight := [GetStatus]\<rparr>)") simp_all
  with reachable_sent_page loading before rejected_page_fire nl show ?thesis
    by (simp only: simp_thms)
qed

text \<open>
  C5, as stated, fails: when the reply to \<^verbatim>\<open>hi\<close> is OK and its \<^verbatim>\<open>response\<close> member is an
  object, the request completes and the flag is cleared, but rendering the reply throws
  and nothing is on the screen afterwards, so no input is enabled.
\<close>

theorem input_not_enabled_counterexample:
  "run [Change hi_text, Click 1000 [], ChatSettled hi_text object_reply 1001 []] (mount [])
     = Some crashed_page
   \<and> isLoading (ui crashed_page) = False
   \<and> unmounted crashed_page
   \<and> screen crashed_page = None
   \<and> fire (Change hi_text) crashed_page = None"
  using crashed_page_run
  by (simp add: crashed_page_def screen_def fire_def)

section \<open>The status flag\<close>

lemma derived_status_values:
  "derived_status r \<in> {''connected'', ''not_configured'', ''error''}"
  by (auto simp: derived_status_def checkOpenAIStatus_try_def
      split: fetch_result.splits sum.splits)

lemma checkOpenAIStatus_settled_status:
  "openaiStatus (checkOpenAIStatus_settled r s) = derived_status r"
  by (simp add: checkOpenAIStatus_settled_def derived_status_def split: sum.splits)

text \<open>
  C3. When the status request resolves to an OK response whose body is an object with
  \<^verbatim>\<open>openai_available\<close> false, the status becomes \<^verbatim>\<open>not_configured\<close> and the header
  renders the Basic Mode indicator and nothing else. Whatever the state, the header
  renders no indicator, the OpenAI one alone or the Basic Mode one alone.
\<close>

theorem status_unavailable_basic_mode:
  assumes "ok resp"
    and "json resp = Inr (JObj kvs)"
    and "map_of (rev kvs) ''openai_available'' = Some (JBool False)"
  shows "openaiStatus (checkOpenAIStatus_settled (Resolved resp) s) = ''not_configured''
       \<and> status_indicators (checkOpenAIStatus_settled (Resolved resp) s) = [BasicMode]
       \<and> status_indicators s' \<in> {[], [OpenAI], [BasicMode]}"
  using assms
  by (simp add: checkOpenAIStatus_settled_def checkOpenAIStatus_try_def status_indicators_def)

theorem status_unavailable_basic_mode_witness:
  "ok \<lparr>ok = True, json = Inr (JObj [(''openai_available'', JBool False)])\<rparr>
   \<and> map_of (rev [(''openai_available'', JBool False)]) ''openai_available'' = Some (JBool False)
   \<and> openaiStatus (checkOpenAIStatus_settled
        (Resolved \<lparr>ok = True, json = Inr (JObj [(''openai_available'', JBool False)])\<rparr>)
        (App_initial [])) = ''not_configured''
   \<and> status_indicators (checkOpenAIStatus_settled
        (Resolved \<lparr>ok = True, json = Inr (JObj [(''openai_available'', JBool False)])\<rparr>)
        (App_initial [])) = [BasicMode]"
proof -
  have h1: "ok \<lparr>ok = True, json = Inr (JObj [(''openai_available'', JBool False)])\<rparr>"
    by simp
  have h2: "json \<lparr>ok = True, json = Inr (JObj [(''openai_available'', JBool False)])\<rparr>
            = Inr (JObj [(''openai_available'', JBool False)])"
    by simp
  have h3: "map_of (rev [(''openai_available'', JBool False)]) ''openai_available''
            = Some (JBool False)"
    by simp
  from status_unavailable_basic_mode [OF h1 h2 h3, of "App_initial []"] h1 h3
  show ?thesis by simp
qed

lemma sendMessage_status:
  "openaiStatus (fst (sendMessage now ts s)) = openaiStatus s"
  by (simp add: sendMessage_def Let_def)

lemma sendMessage_requests: "GetStatus \<notin> set (snd (sendMessage now ts s))"
  by (simp add: sendMessage_def Let_def)

lemma count_list_remove1:
  "x \<in> set xs \<Longrightarrow> Suc (count_list (remove1 x xs) x) = count_list xs x"
  by (induction xs) auto

lemma count_list_remove1_other:
  "x \<noteq> y \<Longrightarrow> count_list (remove1 x xs) y = count_list xs y"
  by (induction xs) auto

lemma count_list_append_absent:
  "y \<notin> set ys \<Longrightarrow> count_list (xs @ ys) y = count_list xs y"
  by (induction xs) (auto simp: count_list_0_iff)

lemma deliver_other_status:
  assumes "deliver e p = Some p'" "\<not> settles_status e"
  shows "openaiStatus (ui p') = openaiStatus (ui p)
       \<and> count_list (inflight p') GetStatus = count_list (inflight p) GetStatus"
proof (cases e)
  case (StatusSettled r)
  with assms show ?thesis by simp
next
  case (Change v)
  with assms show ?thesis by (auto split: if_splits)
next
  case (KeyPress k now ts)
  with assms show ?thesis
    using sendMessage_requests [of now ts "ui p"]
    by (auto simp: handleKeyPress_def issue_def sendMessage_status count_list_append_absent
        split: if_splits)
next
  case (Click now ts)
  with assms show ?thesis
    using sendMessage_requests [of now ts "ui p"]
    by (auto simp: issue_def sendMessage_status count_list_append_absent split: if_splits)
next
  case (ChatSettled m r now ts)
  with assms show ?thesis
    by (auto simp: issue_def sendMessage_settled_def Let_def count_list_remove1_other
        split: if_splits sum.splits)
qed

lemma fire_other_status:
  assumes "fire e p = Some p'" "\<not> settles_status e"
  shows "openaiStatus (ui p') = openaiStatus (ui p)
       \<and> count_list (inflight p') GetStatus = count_list (inflight p) GetStatus"
  using assms(1)
proof (rule fire_SomeD)
  fix q assume "deliver e p = Some q" "p' = rerender q"
  with deliver_other_status [OF _ assms(2)] show ?thesis by (simp add: rerender_fields)
qed

lemma fire_StatusSettled:
  assumes "fire (StatusSettled r) p = Some p'"
  shows "openaiStatus (ui p') = derived_status r
       \<and> Suc (count_list (inflight p') GetStatus) = count_list (inflight p) GetStatus"
proof -
  from assms have mem: "GetStatus \<in> set (inflight p)"
    and ui: "ui p' = checkOpenAIStatus_settled r (ui p)"
    and fl: "inflight p' = remove1 GetStatus (inflight p)"
    by (auto simp: fire_def rerender_fields split: if_splits)
  from ui fl count_list_remove1 [OF mem] show ?thesis
    by (simp only: checkOpenAIStatus_settled_status)
qed

lemma run_status_count:
  "run es p = Some p' \<Longrightarrow>
     length (filter settles_status es) + count_list (inflight p') GetStatus
       = count_list (inflight p) GetStatus"
proof (induction es arbitrary: p)
  case Nil
  then show ?case by simp
next
  case (Cons e es)
  then obtain q where q: "fire e p = Some q" "run es q = Some p'"
    by (auto split: option.splits)
  show ?case
  proof (cases e)
    case (StatusSettled r)
    with q Cons.IH [OF q(2)] fire_StatusSettled [of r p q] show ?thesis by simp
  next
    case (Change v)
    with q Cons.IH [OF q(2)] fire_other_status [OF q(1)] show ?thesis by simp
  next
    case (KeyPress k now ts)
    with q Cons.IH [OF q(2)] fire_other_status [OF q(1)] show ?thesis by simp
  next
    case (Click now ts)
    with q Cons.IH [OF q(2)] fire_other_status [OF q(1)] show ?thesis by simp
  next
    case (ChatSettled m r now ts)
    with q Cons.IH [OF q(2)] fire_other_status [OF q(1)] show ?thesis by simp
  qed
qed

lemma run_no_settle_status:
  "run es p = Some p' \<Longrightarrow> filter settles_status es = [] \<Longrightarrow>
     openaiStatus (ui p') = openaiStatus (ui p)"
proof (induction es arbitrary: p)
  case Nil
  then show ?case by simp
next
  case (Cons e es)
  then obtain q where q: "fire e p = Some q" "run es q = Some p'"
    by (auto split: option.splits)
  from Cons.prems(2) have ns: "\<not> settles_status e" "filter settles_status es = []"
    by (auto split: if_splits)
  from Cons.IH [OF q(2) ns(2)] fire_other_status [OF q(1) ns(1)] show ?case by simp
qed

lemma run_settled_status:
  "run es p = Some p' \<Longrightarrow> count_list (inflight p) GetStatus \<le> 1 \<Longrightarrow>
     StatusSettled r \<in> set es \<Longrightarrow> openaiStatus (ui p') = derived_status r"
proof (induction es arbitrary: p)
  case Nil
  then show ?case by simp
next
  case (Cons e es)
  then obtain q where q: "fire e p = Some q" "run es q = Some p'"
    by (auto split: option.splits)
  show ?case
  proof (cases "settles_status e")
    case True
    then obtain r' where e: "e = StatusSettled r'" by (cases e) auto
    from fire_StatusSettled [of r' p q] q(1) e Cons.prems(2)
    have st: "openaiStatus (ui q) = derived_status r'" and c: "count_list (inflight q) GetStatus = 0"
      by auto
    from run_status_count [OF q(2)] c have none: "filter settles_status es = []" by simp
    have "StatusSettled r \<notin> set es"
    proof
      assume "StatusSettled r \<in> set es"
      then have "StatusSettled r \<in> set (filter settles_status es)" by simp
      with none show False by simp
    qed
    with Cons.prems(3) e have "r = r'" by simp
    with st run_no_settle_status [OF q(2) none] show ?thesis by simp
  next
    case False
    with Cons.prems(3) have mem: "StatusSettled r \<in> set es" by (cases e) auto
    from fire_other_status [OF q(1) False] Cons.prems(2)
    have "count_list (inflight q) GetStatus \<le> 1" by simp
    from Cons.IH [OF q(2) this mem] show ?thesis .
  qed
qed

text \<open>
  C7. After any sequence of events on a mounted page: the status is one of
  \<^verbatim>\<open>checking\<close>, \<^verbatim>\<open>connected\<close>, \<^verbatim>\<open>not_configured\<close>, \<^verbatim>\<open>error\<close>. One status request was
  issued, at mount, and it is still in flight or has settled once, never twice. Until it
  settles the status is \<^verbatim>\<open>checking\<close>; from then on the status is the one derived from
  that response, so no later event has changed it. An event other than the settling of
  the status request leaves the status as it is.
\<close>

theorem openaiStatus_derived_once:
  assumes "run es (mount ts) = Some p"
  shows "openaiStatus (ui p) \<in> {''checking'', ''connected'', ''not_configured'', ''error''}
       \<and> openaiStatus (ui (mount ts)) = ''checking''
       \<and> length (filter settles_status es) + count_list (inflight p) GetStatus = 1
       \<and> (filter settles_status es = [] \<longrightarrow> openaiStatus (ui p) = ''checking'')
       \<and> (\<forall>r. StatusSettled r \<in> set es \<longrightarrow> openaiStatus (ui p) = derived_status r)
       \<and> (\<forall>e p'. fire e p = Some p' \<and> \<not> settles_status e
             \<longrightarrow> openaiStatus (ui p') = openaiStatus (ui p))"
proof -
  have init: "openaiStatus (ui (mount ts)) = ''checking''"
    "count_list (inflight (mount ts)) GetStatus = 1"
    by (simp_all add: mount_def App_initial_def checkOpenAIStatus_def)
  have count: "length (filter settles_status es) + count_list (inflight p) GetStatus = 1"
    using run_status_count [OF assms] init(2) by simp
  have unsettled: "openaiStatus (ui p) = ''checking''" if "filter settles_status es = []"
    using run_no_settle_status [OF assms that] init(1) by simp
  have settled: "openaiStatus (ui p) = derived_status r" if "StatusSettled r \<in> set es" for r
    using run_settled_status [OF assms _ that] init(2) by simp
  have "openaiStatus (ui p) \<in> {''checking'', ''connected'', ''not_configured'', ''error''}"
  proof (cases "filter settles_status es = []")
    case True
    with unsettled show ?thesis by simp
  next
    case False
    then obtain e where e: "e \<in> set es" "settles_status e"
      by (auto simp: filter_empty_conv)
    from e(2) obtain r where "e = StatusSettled r" by (cases e) auto
    with e(1) settled [of r] derived_status_values [of r] show ?thesis by auto
  qed
  moreover have "openaiStatus (ui p') = openaiStatus (ui p)"
    if "fire e p = Some p'" "\<not> settles_status e" for e p'
    using fire_other_status [OF that] by simp
  ultimately show ?thesis using init(1) count unsettled settled by blast
qed

theorem openaiStatus_derived_once_witness:
  "run [StatusSettled (Resolved \<lparr>ok = True, json = Inr (JObj [(''openai_available'', JBool True)])\<rparr>),
        Change hi_text, Click 1000 []] (mount [])
     = Some \<lparr>ui = (ui sent_page)\<lparr>openaiStatus := ''connected''\<rparr>, inflight = [PostChat hi_text],
             unmounted = False\<rparr>
   \<and> openaiStatus (ui \<lparr>ui = (ui sent_page)\<lparr>openaiStatus := ''connected''\<rparr>,
                          inflight = [PostChat hi_text], unmounted = False\<rparr>)
       = derived_status (Resolved \<lparr>ok = True, json = Inr (JObj [(''openai_available'', JBool True)])\<rparr>)
   \<and> length (filter settles_status
        [StatusSettled (Resolved \<lparr>ok = True, json = Inr (JObj [(''openai_available'', JBool True)])\<rparr>),
         Change hi_text, Click 1000 []])
       + count_list (inflight \<lparr>ui = (ui sent_page)\<lparr>openaiStatus := ''connected''\<rparr>,
                               inflight = [PostChat hi_text], unmounted = False\<rparr>) GetStatus = 1"
proof -
  have go: "run [StatusSettled (Resolved \<lparr>ok = True, json = Inr (JObj [(''openai_available'', JBool True)])\<rparr>),
        Change hi_text, Click 1000 []] (mount [])
     = Some \<lparr>ui = (ui sent_page)\<lparr>openaiStatus := ''connected''\<rparr>, inflight = [PostChat hi_text],
             unmounted = False\<rparr>"
    by (simp add: mount_def App_initial_def checkOpenAIStatus_def textarea_disabled_def
        send_button_disabled_def trim_def isWhiteSpace_def sendMessage_def issue_def Let_def
        hi_text_def sent_page_def checkOpenAIStatus_settled_def checkOpenAIStatus_try_def
        fire_def rerender_def App_def chat_messages_def)
  from openaiStatus_derived_once [OF go] go show ?thesis
    by (simp del: run.simps)
qed

section \<open>The message list\<close>

lemma sendMessage_messages:
  "\<exists>new. messages (fst (sendMessage now ts s)) = messages s @ new"
  by (simp add: sendMessage_def Let_def)

lemma deliver_messages_append:
  assumes "deliver e p = Some p'"
  shows "\<exists>new. messages (ui p') = messages (ui p) @ new"
proof (cases e)
  case (StatusSettled r)
  with assms show ?thesis
    by (auto simp: checkOpenAIStatus_settled_def split: if_splits sum.splits)
next
  case (Change v)
  with assms show ?thesis by (auto split: if_splits)
next
  case (KeyPress k now ts)
  with assms show ?thesis
    using sendMessage_messages [of now ts "ui p"]
    by (auto simp: handleKeyPress_def issue_def split: if_splits)
next
  case (Click now ts)
  with assms show ?thesis
    using sendMessage_messages [of now ts "ui p"]
    by (auto simp: issue_def split: if_splits)
next
  case (ChatSettled m r now ts)
  with assms show ?thesis
    using sendMessage_settled_messages [of r now ts "ui p"]
    by (auto simp: issue_def split: if_splits)
qed

lemma fire_messages_append:
  assumes "fire e p = Some p'"
  shows "\<exists>new. messages (ui p') = messages (ui p) @ new"
  using assms
proof (rule fire_SomeD)
  fix q assume "deliver e p = Some q" "p' = rerender q"
  with deliver_messages_append [of e p q] show ?thesis by (simp add: rerender_fields)
qed

lemma run_messages_append:
  "run es p = Some p' \<Longrightarrow> \<exists>new. messages (ui p') = messages (ui p) @ new"
proof (induction es arbitrary: p)
  case Nil
  then show ?case by simp
next
  case (Cons e es)
  then obtain q where q: "fire e p = Some q" "run es q = Some p'"
    by (auto split: option.splits)
  from fire_messages_append [OF q(1)] obtain new1 where
    "messages (ui q) = messages (ui p) @ new1" ..
  moreover from Cons.IH [OF q(2)] obtain new2 where
    "messages (ui p') = messages (ui q) @ new2" ..
  ultimately have "messages (ui p') = messages (ui p) @ (new1 @ new2)" by simp
  then show ?case ..
qed

lemma resent_page_run:
  "run [ChatSettled hi_text (Rejected NetworkError) 1000 [], Change hi_text, Click 1002 []]
     sent_page = Some resent_page"
  by (simp add: textarea_disabled_def send_button_disabled_def trim_def isWhiteSpace_def
      sendMessage_def issue_def Let_def hi_text_def sent_page_def resent_page_def
      sendMessage_settled_def sendMessage_try_def errorMessage_def
      fire_def rerender_def App_def chat_messages_def)

text \<open>
  C10. On every page reached from mount the message list is not empty and starts with
  the greeting entry (identifier 1, the fixed Thai text, not from the user). Whatever
  happens afterwards, the list then is the list now followed by new entries: nothing
  is removed, reordered or changed. Whenever the page is on the screen, the message rows
  are rendered in the order of the list, one row per entry, each with the entry's
  identifier as key and its text. Nothing is on the screen exactly when the list holds
  an entry whose text is not a valid child, so that rendering throws.
\<close>

theorem messages_append_only:
  assumes "run es (mount ts) = Some p"
    and "run es' p = Some p'"
  shows "messages (ui p) \<noteq> []
       \<and> hd (messages (ui p))
           = \<lparr>id' = 1, text' = JStr greeting_text, isUser = Some False, timestamp = ts\<rparr>
       \<and> (\<exists>new. messages (ui p') = messages (ui p) @ new)
       \<and> (\<forall>v. screen p = Some v \<longrightarrow>
              [row. MessageRow row \<leftarrow> chat_rows v] = map render_message (messages (ui p))
              \<and> map row_key [row. MessageRow row \<leftarrow> chat_rows v] = map id' (messages (ui p))
              \<and> map message_text [row. MessageRow row \<leftarrow> chat_rows v]
                  = map text' (messages (ui p)))
       \<and> (screen p = None \<longleftrightarrow> \<not> list_all (renderable \<circ> text') (messages (ui p)))"
proof -
  from run_messages_append [OF assms(1)] obtain new where
    "messages (ui p) = messages (ui (mount ts)) @ new" ..
  then have first: "messages (ui p)
      = \<lparr>id' = 1, text' = JStr greeting_text, isUser = Some False, timestamp = ts\<rparr> # new"
    by (simp add: mount_def App_initial_def)
  have inv: "page_inv p"
    by (rule page_inv_run [OF assms(1) page_inv_mount])
  have rows: "[row. MessageRow row \<leftarrow> chat_rows v] = map render_message (messages (ui p))"
    if "screen p = Some v" for v
    using that unfolding screen_page_inv [OF inv]
    by (auto simp: o_def split: if_splits)
  have keys: "map row_key [row. MessageRow row \<leftarrow> chat_rows v] = map id' (messages (ui p))"
    if "screen p = Some v" for v
    unfolding rows [OF that] by (simp add: render_message_def)
  have texts: "map message_text [row. MessageRow row \<leftarrow> chat_rows v]
                 = map text' (messages (ui p))"
    if "screen p = Some v" for v
    unfolding rows [OF that] by (simp add: render_message_def)
  have blank: "screen p = None \<longleftrightarrow> \<not> list_all (renderable \<circ> text') (messages (ui p))"
    unfolding screen_page_inv [OF inv] by simp
  from first have "messages (ui p) \<noteq> []"
    and "hd (messages (ui p))
           = \<lparr>id' = 1, text' = JStr greeting_text, isUser = Some False, timestamp = ts\<rparr>"
    by simp_all
  with run_messages_append [OF assms(2)] rows keys texts blank
  show ?thesis by blast
qed

theorem messages_append_only_witness:
  "run [Change hi_text, Click 1000 []] (mount []) = Some sent_page
   \<and> run [ChatSettled hi_text (Rejected NetworkError) 1000 [], Change hi_text, Click 1002 []]
         sent_page = Some resent_page
   \<and> hd (messages (ui sent_page))
       = \<lparr>id' = 1, text' = JStr greeting_text, isUser = Some False, timestamp = []\<rparr>
   \<and> (\<exists>new. messages (ui resent_page) = messages (ui sent_page) @ new)
   \<and> map_option (map row_key \<circ> concat
                    \<circ> map (case_chat_row (\<lambda>row. [row]) []) \<circ> chat_rows) (screen sent_page)
       = Some [1, 1000]"
proof -
  have "screen sent_page \<noteq> None"
    by (simp add: screen_def App_def chat_messages_def sent_page_def)
  then obtain v where v: "screen sent_page = Some v" by blast
  from messages_append_only [OF sent_page_run resent_page_run] v have
    "map row_key [row. MessageRow row \<leftarrow> chat_rows v] = map id' (messages (ui sent_page))"
    by blast
  then have "map_option (map row_key \<circ> concat
                    \<circ> map (case_chat_row (\<lambda>row. [row]) []) \<circ> chat_rows) (screen sent_page)
       = Some [1, 1000]"
    using v by (simp add: sent_page_def)
  with messages_append_only [OF sent_page_run resent_page_run] sent_page_run resent_page_run
  show ?thesis by blast
qed

section \<open>Message identifiers\<close>

lemma ids_issue_sendMessage:
  "ids (issue p (sendMessage now ts (ui p)))
     = (if trim (inputMessage (ui p)) = [] then ids p else ids p @ [now])"
  by (simp add: ids_def issue_def sendMessage_def Let_def)

lemma ids_issue_sendMessage_settled:
  "ids (issue p' (sendMessage_settled r now ts (ui p))) = ids p @ [now + 1]"
  by (auto simp: ids_def issue_def sendMessage_settled_messages errorMessage_def
      sendMessage_try_def split: sum.splits fetch_result.splits if_splits)

lemma ids_rerender: "ids (rerender p) = ids p"
  by (simp add: ids_def rerender_fields)

lemma fire_ids_clock:
  assumes "fire e p = Some q"
  shows "(ids q = ids p \<and> (\<forall>hi. clock_ok hi (e # es) p = clock_ok hi es q))
       \<or> (\<exists>n. ids q = ids p @ [n] \<and> (\<forall>hi. clock_ok hi (e # es) p = (hi < n \<and> clock_ok n es q)))"
proof (cases e)
  case (StatusSettled r)
  with assms have "ids q = ids p"
    by (auto simp: fire_def ids_def rerender_fields checkOpenAIStatus_settled_def
        split: if_splits sum.splits)
  with assms StatusSettled show ?thesis by simp
next
  case (Change v)
  with assms have "ids q = ids p"
    by (auto simp: fire_def ids_def rerender_fields split: if_splits)
  with assms Change show ?thesis by simp
next
  case (Click now ts)
  with assms have nb: "trim (inputMessage (ui p)) \<noteq> []"
    and q: "q = rerender (issue p (sendMessage now ts (ui p)))"
    by (auto simp: fire_def send_button_disabled_def split: if_splits)
  from q nb have "ids q = ids p @ [now]"
    by (simp add: ids_rerender ids_issue_sendMessage)
  with assms Click nb show ?thesis by simp
next
  case (KeyPress k now ts)
  with assms have q: "q = rerender (issue p (handleKeyPress k now ts (ui p)))"
    by (auto simp: fire_def split: if_splits)
  show ?thesis
  proof (cases "key k = ''Enter'' \<and> \<not> shiftKey k \<and> trim (inputMessage (ui p)) \<noteq> []")
    case True
    with q have "ids q = ids p @ [now]"
      by (simp add: ids_rerender ids_issue_sendMessage handleKeyPress_def)
    with assms KeyPress True show ?thesis by simp
  next
    case False
    with q have "ids q = ids p"
      by (auto simp: ids_def rerender_fields issue_def handleKeyPress_def sendMessage_def
          Let_def)
    with assms KeyPress False show ?thesis by auto
  qed
next
  case (ChatSettled m r now ts)
  with assms have "ids q = ids p @ [now + 1]"
    by (auto simp: fire_def ids_rerender ids_issue_sendMessage_settled split: if_splits)
  with assms ChatSettled show ?thesis by simp
qed

lemma sorted_le_last:
  fixes xs :: "int list"
  shows "sorted_wrt (<) xs \<Longrightarrow> x \<in> set xs \<Longrightarrow> x \<le> last xs"
proof (induction xs)
  case Nil
  then show ?case by simp
next
  case (Cons y ys)
  show ?case
  proof (cases "ys = []")
    case True
    with Cons.prems show ?thesis by simp
  next
    case False
    then have mem: "last ys \<in> set ys" by simp
    from Cons.prems(1) have above: "\<forall>z \<in> set ys. y < z" and srt: "sorted_wrt (<) ys"
      by simp_all
    from Cons.prems(2) consider "x = y" | "x \<in> set ys" by auto
    then have "x \<le> last ys"
    proof cases
      case 1
      with above mem show ?thesis by fastforce
    next
      case 2
      then show ?thesis by (rule Cons.IH [OF srt])
    qed
    with False show ?thesis by simp
  qed
qed

lemma run_ids:
  "run es p = Some p' \<Longrightarrow> \<exists>more. ids p' = ids p @ more"
proof -
  assume "run es p = Some p'"
  from run_messages_append [OF this] obtain new where
    "messages (ui p') = messages (ui p) @ new" ..
  then have "ids p' = ids p @ map id' new" by (simp add: ids_def)
  then show ?thesis ..
qed

lemma run_ids_sorted_iff:
  "run es p = Some p' \<Longrightarrow> sorted_wrt (<) (ids p) \<Longrightarrow> ids p \<noteq> [] \<Longrightarrow> last (ids p) = hi \<Longrightarrow>
     clock_ok hi es p \<longleftrightarrow> sorted_wrt (<) (ids p')"
proof (induction es arbitrary: p hi)
  case Nil
  then show ?case by simp
next
  case (Cons e es)
  then obtain q where q: "fire e p = Some q" "run es q = Some p'"
    by (auto split: option.splits)
  note srt = Cons.prems(2) and ne = Cons.prems(3) and hi = Cons.prems(4)
  from fire_ids_clock [OF q(1), of es] show ?case
  proof
    assume same: "ids q = ids p \<and> (\<forall>hi. clock_ok hi (e # es) p = clock_ok hi es q)"
    with Cons.IH [OF q(2), of hi] srt ne hi show ?thesis by simp
  next
    assume "\<exists>n. ids q = ids p @ [n]
               \<and> (\<forall>hi. clock_ok hi (e # es) p = (hi < n \<and> clock_ok n es q))"
    then obtain n where n: "ids q = ids p @ [n]"
      and ck: "clock_ok hi (e # es) p = (hi < n \<and> clock_ok n es q)"
      by blast
    show ?thesis
    proof (cases "hi < n")
      case True
      with srt hi sorted_le_last [OF srt] have "sorted_wrt (<) (ids q)"
        unfolding n by (fastforce simp: sorted_wrt_append)
      moreover from n have "ids q \<noteq> []" "last (ids q) = n" by simp_all
      ultimately have "clock_ok n es q \<longleftrightarrow> sorted_wrt (<) (ids p')"
        by (rule Cons.IH [OF q(2)])
      with ck True show ?thesis by simp
    next
      case False
      from run_ids [OF q(2)] obtain more where "ids p' = ids q @ more" ..
      with n have p': "ids p' = ids p @ n # more" by simp
      have "\<not> sorted_wrt (<) (ids p')"
      proof
        assume "sorted_wrt (<) (ids p')"
        with p' have "\<forall>x \<in> set (ids p). x < n" by (auto simp: sorted_wrt_append)
        moreover from ne hi have "hi \<in> set (ids p)" by auto
        ultimately show False using False by blast
      qed
      with ck False show ?thesis by simp
    qed
  qed
qed

text \<open>
  C6, as amended. Take any sequence of events on a mounted page. The identifiers in the
  list are strictly increasing exactly when the clock is read as \<open>clock_ok\<close> asks,
  starting from the greeting's identifier 1: the first send reads more than 1, a
  completion reads no less than its send, and a later send reads at least 2 more than
  the completion before it. In that case, relative to any earlier moment of the run,
  the entries appended since have identifiers above all those the list held then.
\<close>

theorem ids_increasing_when_clock_advances:
  assumes "run es (mount ts) = Some p"
  shows "(clock_ok 1 es (mount ts) \<longleftrightarrow> sorted_wrt (<) (ids p))
       \<and> (clock_ok 1 es (mount ts) \<longrightarrow>
            (\<forall>es1 es2 q. es = es1 @ es2 \<and> run es1 (mount ts) = Some q \<longrightarrow>
               (\<exists>new. messages (ui p) = messages (ui q) @ new
                  \<and> (\<forall>m \<in> set new. \<forall>x \<in> set (messages (ui q)). id' x < id' m))))"
proof -
  have "ids (mount ts) = [1]"
    by (simp add: ids_def mount_def App_initial_def)
  with run_ids_sorted_iff [OF assms, of 1] have
    iff: "clock_ok 1 es (mount ts) \<longleftrightarrow> sorted_wrt (<) (ids p)" by simp
  have "\<exists>new. messages (ui p) = messages (ui q) @ new
               \<and> (\<forall>m \<in> set new. \<forall>x \<in> set (messages (ui q)). id' x < id' m)"
    if "clock_ok 1 es (mount ts)" "es = es1 @ es2" "run es1 (mount ts) = Some q" for es1 es2 q
  proof -
    from that(1) iff have srt: "sorted_wrt (<) (ids p)" by simp
    from assms that have "run es2 q = Some p" by (simp add: run_append)
    from run_messages_append [OF this] obtain new where
      new: "messages (ui p) = messages (ui q) @ new" ..
    with srt have "\<forall>m \<in> set new. \<forall>x \<in> set (messages (ui q)). id' x < id' m"
      by (auto simp: ids_def sorted_wrt_append)
    with new show ?thesis by blast
  qed
  with iff show ?thesis by blast
qed

theorem ids_increasing_when_clock_advances_witness:
  "run [Change hi_text, Click 1000 [], ChatSettled hi_text (Rejected NetworkError) 1000 [],
        KeyPress \<lparr>key = ''Enter'', shiftKey = False\<rparr> 0 [],
        Change hi_text, Click 1002 []] (mount []) = Some resent_page
   \<and> clock_ok 1 [Change hi_text, Click 1000 [],
        ChatSettled hi_text (Rejected NetworkError) 1000 [],
        KeyPress \<lparr>key = ''Enter'', shiftKey = False\<rparr> 0 [],
        Change hi_text, Click 1002 []] (mount [])
   \<and> ids resent_page = [1, 1000, 1001, 1002]
   \<and> sorted_wrt (<) (ids resent_page)"
proof -
  have go: "run [Change hi_text, Click 1000 [],
        ChatSettled hi_text (Rejected NetworkError) 1000 [],
        KeyPress \<lparr>key = ''Enter'', shiftKey = False\<rparr> 0 [],
        Change hi_text, Click 1002 []] (mount []) = Some resent_page"
    by (simp add: mount_def App_initial_def checkOpenAIStatus_def textarea_disabled_def
        send_button_disabled_def trim_def isWhiteSpace_def sendMessage_def issue_def Let_def
        hi_text_def resent_page_def sendMessage_settled_def sendMessage_try_def
        errorMessage_def handleKeyPress_def fire_def rerender_def App_def chat_messages_def)
  have eq: "ids resent_page = [1, 1000, 1001, 1002]"
    by (simp add: ids_def resent_page_def)
  then have "sorted_wrt (<) (ids resent_page)" by simp
  with ids_increasing_when_clock_advances [OF go] go eq show ?thesis by blast
qed

text \<open>
  C6, as stated, fails although the clock moves forward at every reading: a reply that
  arrives at reading 1001 gets identifier 1002, and a send at reading 1002 then appends
  an entry with identifier 1002 to a list that already holds 1002.
\<close>

theorem ids_not_increasing_counterexample:
  "map_option ids
     (run [Change hi_text, Click 1000 [],
           ChatSettled hi_text
             (Resolved \<lparr>ok = True, json = Inr (JObj [(''response'', JStr hi_text)])\<rparr>) 1001 [],
           Change hi_text] (mount []))
     = Some [1, 1000, 1002]
   \<and> map_option ids
     (run [Change hi_text, Click 1000 [],
           ChatSettled hi_text
             (Resolved \<lparr>ok = True, json = Inr (JObj [(''response'', JStr hi_text)])\<rparr>) 1001 [],
           Change hi_text, Click 1002 []] (mount []))
     = Some [1, 1000, 1002, 1002]"
  by (simp add: mount_def App_initial_def checkOpenAIStatus_def textarea_disabled_def
      send_button_disabled_def trim_def isWhiteSpace_def sendMessage_def issue_def Let_def
      hi_text_def sendMessage_settled_def sendMessage_try_def ids_def
      fire_def rerender_def App_def chat_messages_def)

end
